theory Spec2Isabelle
  imports Main
begin

section \<open>Python strings\<close>

text \<open>
  A Python \<open>str\<close> is modelled as a \<open>string\<close> in which every \<open>char\<close> stands for one
  character (a code point below 256), so \<open>length\<close> is Python's \<open>len\<close>.  The character
  classes below are the ones Python 3 uses for \<open>str\<close> patterns and \<open>str.strip\<close>,
  restricted to that range.
\<close>

type_synonym conversation = "(string \<times> string) list"

text \<open>\<open>sep.join(lines)\<close>\<close>

fun join :: "string \<Rightarrow> string list \<Rightarrow> string" where
  "join sep [] = []"
| "join sep [x] = x"
| "join sep (x # y # ys) = x @ sep @ join sep (y # ys)"

section \<open>Duplicate-key serializer\<close>

text \<open>
  \<open>json.dumps(value, ensure_ascii=False)\<close> on a string: the quote, the backslash and
  the control characters below 0x20 are escaped (\<open>\b \f \n \r \t\<close> by their short
  forms, the others as \<open>\u00XX\<close> in lower-case hexadecimal); every other character
  passes through.
\<close>

definition hex_digit :: "nat \<Rightarrow> char" where
  "hex_digit n = ''0123456789abcdef'' ! n"

definition escape_char :: "char \<Rightarrow> string" where
  "escape_char c =
     (if c = CHR 0x5C then [CHR 0x5C, CHR 0x5C]
      else if c = CHR 0x22 then [CHR 0x5C, CHR 0x22]
      else if c = CHR 0x08 then [CHR 0x5C, CHR ''b'']
      else if c = CHR 0x0C then [CHR 0x5C, CHR ''f'']
      else if c = CHR 0x0A then [CHR 0x5C, CHR ''n'']
      else if c = CHR 0x0D then [CHR 0x5C, CHR ''r'']
      else if c = CHR 0x09 then [CHR 0x5C, CHR ''t'']
      else if (of_char c :: nat) < 0x20
        then [CHR 0x5C, CHR ''u'', CHR ''0'', CHR ''0'',
              hex_digit (of_char c div 16), hex_digit (of_char c mod 16)]
      else [c])"

definition json_dumps :: "string \<Rightarrow> string" where
  "json_dumps s = CHR 0x22 # concat (map escape_char s) @ [CHR 0x22]"

text \<open>
  The line of the pair at index \<open>j\<close> of a conversation of \<open>n\<close> pairs:
  \<open>f'      "{key}": {escaped_value}'\<close>, with a comma when \<open>j < len(conv) - 1\<close>.
\<close>

definition member_line :: "nat \<Rightarrow> nat \<Rightarrow> string \<times> string \<Rightarrow> string" where
  \<open>member_line n j kv =
     ''      "'' @ fst kv @ ''": '' @ json_dumps (snd kv)
       @ (if int j < int n - 1 then '','' else [])\<close>

text \<open>
  The lines of the conversation at index \<open>i\<close> of \<open>n_convs\<close> conversations: the opening
  brace, one line per pair, and the closing brace with a comma when
  \<open>i < len(conversations) - 1\<close>.
\<close>

definition conversation_lines :: "nat \<Rightarrow> nat \<Rightarrow> conversation \<Rightarrow> string list" where
  "conversation_lines n_convs i conv =
     [''    {'']
       @ map (\<lambda>(j, kv). member_line (length conv) j kv) (enumerate 0 conv)
       @ [if int i < int n_convs - 1 then ''    },'' else ''    }'']"

definition serialize_to_json_with_duplicate_keys :: "conversation list \<Rightarrow> string" where
  \<open>serialize_to_json_with_duplicate_keys conversations =
     join [CHR 0x0A]
       ([''{'', ''  "example_conversation": ['']
          @ concat (map (\<lambda>(i, conv). conversation_lines (length conversations) i conv)
                        (enumerate 0 conversations))
          @ [''  ]'', ''}''])\<close>

section \<open>Capacity selector\<close>

text \<open>
  Both passes of \<open>fit_to_character_limit\<close> run the same loop: append the next
  conversation to \<open>result\<close> while the serialized tentative selection fits, and
  \<open>break\<close> at the first one that does not.  The budget is a Python \<open>int\<close>.
\<close>

fun append_while_fits :: "int \<Rightarrow> conversation list \<Rightarrow> conversation list \<Rightarrow> conversation list" where
  "append_while_fits character_limit result [] = result"
| "append_while_fits character_limit result (conv # rest) =
     (let test_result = result @ [conv];
          test_json = serialize_to_json_with_duplicate_keys test_result
      in if int (length test_json) \<le> character_limit
         then append_while_fits character_limit test_result rest
         else result)"

text \<open>
  \<open>random.shuffle\<close> is the only effect: the generator's state \<open>'g\<close> is threaded
  through, and \<open>shuffle\<close> is any function from a state and a list to the shuffled
  copy and the next state.  A pass that does not shuffle returns the state it got.
\<close>

definition fit_to_character_limit ::
  "('g \<Rightarrow> conversation list \<Rightarrow> conversation list \<times> 'g) \<Rightarrow> conversation list \<Rightarrow> int \<Rightarrow> 'g
     \<Rightarrow> conversation list \<times> 'g" where
  "fit_to_character_limit shuffle conversations character_limit g =
     (let result = append_while_fits character_limit [] conversations in
      if length result = length conversations then (result, g)
      else if length result < length conversations then
        (let (conversations_copy, g') = shuffle g conversations
         in (append_while_fits character_limit [] conversations_copy, g'))
      else (result, g))"

text \<open>A concrete generator for evaluating the selector: it reverses the list.\<close>

definition reversing_shuffle :: "nat \<Rightarrow> conversation list \<Rightarrow> conversation list \<times> nat" where
  "reversing_shuffle g xs = (rev xs, Suc g)"

definition sample_conversation :: conversation where
  "sample_conversation = [(''{{random_user_1}}'', ''hi''), (''{{char}}'', ''hey'')]"

section \<open>Timestamps and messages\<close>

text \<open>
  A \<open>datetime\<close> with minute precision, as \<open>strptime\<close> builds it from the header
  format (seconds are always zero).  \<open>toordinal\<close> is the proleptic Gregorian day
  number, and the difference of two timestamps in minutes is the difference of their
  \<open>total_minutes\<close>: \<open>(a - b).total_seconds() / 60\<close> is then a whole number, which the
  float division represents exactly.
\<close>

record datetime =
  year :: int
  month :: int
  day :: int
  hour :: int
  minute :: int

definition is_leap :: "int \<Rightarrow> bool" where
  "is_leap y = (y mod 4 = 0 \<and> (y mod 100 \<noteq> 0 \<or> y mod 400 = 0))"

definition days_in_month :: "int \<Rightarrow> int \<Rightarrow> int" where
  "days_in_month y m =
     (if m = 2 then (if is_leap y then 29 else 28)
      else if m = 4 \<or> m = 6 \<or> m = 9 \<or> m = 11 then 30 else 31)"

definition days_before_year :: "int \<Rightarrow> int" where
  "days_before_year y = (y - 1) * 365 + (y - 1) div 4 - (y - 1) div 100 + (y - 1) div 400"

definition days_before_month :: "int \<Rightarrow> int \<Rightarrow> int" where
  "days_before_month y m = sum_list (map (days_in_month y) [1..m - 1])"

definition toordinal :: "datetime \<Rightarrow> int" where
  "toordinal d = days_before_year (year d) + days_before_month (year d) (month d) + day d"

definition total_minutes :: "datetime \<Rightarrow> int" where
  "total_minutes d = (toordinal d * 24 + hour d) * 60 + minute d"

text \<open>The dict with the keys \<open>'timestamp'\<close>, \<open>'username'\<close> and \<open>'message'\<close>.\<close>

record chat_message =
  timestamp :: datetime
  username :: string
  message :: string

text \<open>
  \<open>(msg['timestamp'] - prev['timestamp']).total_seconds() / 60\<close>
\<close>

definition time_diff :: "chat_message \<Rightarrow> chat_message \<Rightarrow> int" where
  "time_diff prev msg = total_minutes (timestamp msg) - total_minutes (timestamp prev)"

section \<open>Content sanitizer and segmenter\<close>

text \<open>Whitespace as \<open>str.isspace\<close> and the pattern class \<open>\s\<close> see it.\<close>

definition is_space :: "char \<Rightarrow> bool" where
  "is_space c =
     (let n = (of_char c :: nat)
      in (9 \<le> n \<and> n \<le> 13) \<or> (28 \<le> n \<and> n \<le> 32) \<or> n = 133 \<or> n = 160)"

definition strip :: "string \<Rightarrow> string" where
  "strip s = rev (dropWhile is_space (rev (dropWhile is_space s)))"

definition starts_with :: "string \<Rightarrow> string \<Rightarrow> bool" where
  "starts_with p s = (take (length p) s = p)"

text \<open>\<open>needle in haystack\<close>\<close>

fun contains :: "string \<Rightarrow> string \<Rightarrow> bool" where
  "contains needle [] = (needle = [])"
| "contains needle (c # cs) = (starts_with needle (c # cs) \<or> contains needle cs)"

definition media_marker :: string where
  "media_marker = ''<Media omitted>''"

definition in_range :: "char \<Rightarrow> char \<Rightarrow> char \<Rightarrow> bool" where
  "in_range lo hi c = ((of_char lo :: nat) \<le> of_char c \<and> (of_char c :: nat) \<le> of_char hi)"

definition is_hex :: "char \<Rightarrow> bool" where
  "is_hex c = (in_range CHR ''0'' CHR ''9'' c \<or> in_range CHR ''a'' CHR ''f'' c
                \<or> in_range CHR ''A'' CHR ''F'' c)"

text \<open>
  One repetition of the group of the URL pattern at the head of the text, alternative
  by alternative:
  \<open>[a-zA-Z] | [0-9] | [$-_@.&+] | [!*\\(\\),] | %[0-9a-fA-F][0-9a-fA-F]\<close>.
\<close>

definition url_unit_at :: "string \<Rightarrow> bool" where
  "url_unit_at s =
     (case s of
        [] \<Rightarrow> False
      | c # cs \<Rightarrow>
          in_range CHR ''a'' CHR ''z'' c \<or> in_range CHR ''A'' CHR ''Z'' c
          \<or> in_range CHR ''0'' CHR ''9'' c
          \<or> in_range CHR ''$'' CHR ''_'' c \<or> c \<in> set ''@.&+''
          \<or> c \<in> set [CHR ''!'', CHR ''*'', CHR 0x5C, CHR ''('', CHR '')'', CHR '','']
          \<or> (c = CHR ''%'' \<and> (case cs of h1 # h2 # _ \<Rightarrow> is_hex h1 \<and> is_hex h2 | _ \<Rightarrow> False)))"

text \<open>
  The pattern \<open>http[s]?://(...)+\<close> matches at the head of the text: the scheme, and at
  least one repetition of the group.
\<close>

definition link_at :: "string \<Rightarrow> bool" where
  "link_at s =
     (starts_with ''http'' s \<and>
        ((starts_with ''s://'' (drop 4 s) \<and> url_unit_at (drop 8 s))
         \<or> (starts_with ''://'' (drop 4 s) \<and> url_unit_at (drop 7 s))))"

text \<open>\<open>re.search\<close>: the pattern matches at some position.\<close>

fun contains_link :: "string \<Rightarrow> bool" where
  "contains_link [] = False"
| "contains_link (c # cs) = (link_at (c # cs) \<or> contains_link cs)"

text \<open>
  The media branch of the loop body.  \<open>None\<close> is the \<open>continue\<close>; otherwise the
  result is the body after the branch.  \<open>elif media_replacement:\<close> tests the
  truth value of an optional string: \<open>None\<close> and the empty string are both false.
\<close>

definition handle_media :: "bool \<Rightarrow> string option \<Rightarrow> string \<Rightarrow> string option" where
  "handle_media filter_media media_replacement body =
     (if contains media_marker body then
        (if filter_media then None
         else (case media_replacement of
                 Some r \<Rightarrow> if r \<noteq> [] then Some r else Some body
               | None \<Rightarrow> Some body))
      else Some body)"

text \<open>The link branch, on the body the media branch left.\<close>

definition handle_link :: "bool \<Rightarrow> string option \<Rightarrow> string \<Rightarrow> string option" where
  "handle_link filter_links link_replacement body =
     (if contains_link body then
        (if filter_links then None
         else (case link_replacement of
                 Some r \<Rightarrow> if r \<noteq> [] then Some r else Some body
               | None \<Rightarrow> Some body))
      else Some body)"

text \<open>\<open>body.replace('\n', ' ').replace('\r', ' ')\<close>\<close>

definition replace_newlines :: "string \<Rightarrow> string" where
  "replace_newlines body = map (\<lambda>c. if c = CHR 0x0A \<or> c = CHR 0x0D then CHR '' '' else c) body"

text \<open>
  The loop body from the link branch on: the link branch, the skip of a body that is
  blank after stripping, and the removal of newlines.
\<close>

definition sanitize_from_link ::
  "bool \<Rightarrow> string option \<Rightarrow> chat_message \<Rightarrow> string \<Rightarrow> chat_message option" where
  "sanitize_from_link filter_links link_replacement msg body =
     (case handle_link filter_links link_replacement body of
        None \<Rightarrow> None
      | Some b \<Rightarrow> if strip b = [] then None else Some (msg\<lparr>message := replace_newlines b\<rparr>))"

definition sanitize ::
  "bool \<Rightarrow> bool \<Rightarrow> string option \<Rightarrow> string option \<Rightarrow> chat_message \<Rightarrow> chat_message option" where
  "sanitize filter_media filter_links media_replacement link_replacement msg =
     (case handle_media filter_media media_replacement (message msg) of
        None \<Rightarrow> None
      | Some body \<Rightarrow> sanitize_from_link filter_links link_replacement msg body)"

text \<open>
  The rest of the loop body: the message opens the first block, or is compared with
  the last message of the current block (\<open>current_block[-1]\<close>) and either closes the
  block and opens the next one, or joins the block.  The state is the pair
  \<open>(blocks, current_block)\<close>.
\<close>

definition place ::
  "int \<Rightarrow> chat_message \<Rightarrow> chat_message list list \<times> chat_message list
     \<Rightarrow> chat_message list list \<times> chat_message list" where
  "place split_minutes msg state =
     (case state of (blocks, current_block) \<Rightarrow>
        if current_block = [] then (blocks, current_block @ [msg])
        else if time_diff (last current_block) msg > split_minutes
          then (blocks @ [current_block], [msg])
          else (blocks, current_block @ [msg]))"

definition loop_step ::
  "int \<Rightarrow> bool \<Rightarrow> bool \<Rightarrow> string option \<Rightarrow> string option \<Rightarrow> chat_message
     \<Rightarrow> chat_message list list \<times> chat_message list
     \<Rightarrow> chat_message list list \<times> chat_message list" where
  "loop_step split_minutes filter_media filter_links media_replacement link_replacement msg state =
     (case sanitize filter_media filter_links media_replacement link_replacement msg of
        None \<Rightarrow> state
      | Some m \<Rightarrow> place split_minutes m state)"

definition group_by_time_gap ::
  "chat_message list \<Rightarrow> int \<Rightarrow> bool \<Rightarrow> bool \<Rightarrow> string option \<Rightarrow> string option
     \<Rightarrow> chat_message list list" where
  "group_by_time_gap messages split_minutes filter_media filter_links
       media_replacement link_replacement =
     (if messages = [] then []
      else
        (case fold (loop_step split_minutes filter_media filter_links
                      media_replacement link_replacement) messages ([], []) of
           (blocks, current_block) \<Rightarrow>
             if current_block \<noteq> [] then blocks @ [current_block] else blocks))"

section \<open>Role mapper\<close>

definition USER_ROLE :: string where
  "USER_ROLE = ''{{random_user_1}}''"

definition CHAR_ROLE :: string where
  "CHAR_ROLE = ''{{char}}''"

text \<open>
  The inner loop of \<open>convert_to_json_format\<close> on the state
  \<open>(conversation, speakers_present)\<close>; a message of an unknown speaker is skipped.
\<close>

definition role_step ::
  "string \<Rightarrow> string \<Rightarrow> chat_message \<Rightarrow> conversation \<times> string set \<Rightarrow> conversation \<times> string set" where
  "role_step user_name char_name msg state =
     (case state of (conversation, speakers_present) \<Rightarrow>
        if username msg = user_name
          then (conversation @ [(USER_ROLE, message msg)], insert USER_ROLE speakers_present)
        else if username msg = char_name
          then (conversation @ [(CHAR_ROLE, message msg)], insert CHAR_ROLE speakers_present)
        else (conversation, speakers_present))"

definition convert_block :: "string \<Rightarrow> string \<Rightarrow> chat_message list \<Rightarrow> conversation \<times> string set" where
  "convert_block user_name char_name block = fold (role_step user_name char_name) block ([], {})"

definition convert_to_json_format ::
  "chat_message list list \<Rightarrow> string \<Rightarrow> string \<Rightarrow> conversation list" where
  "convert_to_json_format blocks user_name char_name =
     fold (\<lambda>block result.
             case convert_block user_name char_name block of
               (conversation, speakers_present) \<Rightarrow>
                 if card speakers_present \<ge> 2 \<and> conversation \<noteq> []
                 then result @ [conversation] else result)
          blocks []"

text \<open>The properties of the segmenter's output, and the invariant of its loop.\<close>

definition gaps_within :: "int \<Rightarrow> chat_message list \<Rightarrow> bool" where
  "gaps_within split_minutes block =
     (\<forall>i. Suc i < length block \<longrightarrow> time_diff (block ! i) (block ! Suc i) \<le> split_minutes)"

definition boundaries_exceed :: "int \<Rightarrow> chat_message list list \<Rightarrow> bool" where
  "boundaries_exceed split_minutes blocks =
     (\<forall>j. Suc j < length blocks \<longrightarrow>
          time_diff (last (blocks ! j)) (hd (blocks ! Suc j)) > split_minutes)"

definition closed_blocks ::
  "chat_message list list \<times> chat_message list \<Rightarrow> chat_message list list" where
  "closed_blocks state =
     (case state of (blocks, current_block) \<Rightarrow>
        if current_block \<noteq> [] then blocks @ [current_block] else blocks)"

definition segmented :: "int \<Rightarrow> chat_message list list \<Rightarrow> bool" where
  "segmented split_minutes blocks =
     ((\<forall>b \<in> set blocks. b \<noteq> [] \<and> gaps_within split_minutes b)
      \<and> boundaries_exceed split_minutes blocks)"

definition seg_inv :: "int \<Rightarrow> chat_message list list \<times> chat_message list \<Rightarrow> bool" where
  "seg_inv split_minutes state =
     ((snd state = [] \<longrightarrow> fst state = []) \<and> segmented split_minutes (closed_blocks state))"

section \<open>Line parser\<close>

text \<open>The pattern class \<open>\d\<close> (the decimal digits; below 256 these are \<open>0\<close> to \<open>9\<close>).\<close>

definition is_digit :: "char \<Rightarrow> bool" where
  "is_digit c = in_range CHR ''0'' CHR ''9'' c"

text \<open>
  A pattern element is a function from the text at the current position to the ways it
  can match there, in the order a backtracking matcher tries them; each way is the
  matched text and the rest.
\<close>

text \<open>
  \<open>greedy P lo hi\<close> is a class repeated \<open>{lo,hi}\<close> times: the longest run first, then
  the shorter ones down to \<open>lo\<close>.  \<open>many P lo\<close> has no upper bound (\<open>+\<close> is \<open>many P 1\<close>,
  \<open>*\<close> is \<open>many P 0\<close>), \<open>lit\<close> is a literal text, \<open>one\<close> a single character of a class,
  and \<open>at_end\<close> is \<open>$\<close>: the end of the text, or just before a newline that ends it.
\<close>

definition greedy :: "(char \<Rightarrow> bool) \<Rightarrow> nat \<Rightarrow> nat \<Rightarrow> string \<Rightarrow> (string \<times> string) list" where
  "greedy P lo hi s =
     map (\<lambda>k. (take k s, drop k s)) (rev [lo..<Suc (min hi (length (takeWhile P s)))])"

definition many :: "(char \<Rightarrow> bool) \<Rightarrow> nat \<Rightarrow> string \<Rightarrow> (string \<times> string) list" where
  "many P lo s = greedy P lo (length s) s"

definition lit :: "string \<Rightarrow> string \<Rightarrow> (string \<times> string) list" where
  "lit p s = (if starts_with p s then [(p, drop (length p) s)] else [])"

definition one :: "(char \<Rightarrow> bool) \<Rightarrow> string \<Rightarrow> (string \<times> string) list" where
  "one P s = (case s of [] \<Rightarrow> [] | c # r \<Rightarrow> if P c then [([c], r)] else [])"

definition at_end :: "string \<Rightarrow> bool" where
  "at_end s = (s = [] \<or> s = [CHR 0x0A])"

text \<open>
  The pattern of \<open>parse_whatsapp_line\<close>, element by element:
  \<open>^(\d{1,2}/\d{1,2}/\d{2,4},\s+\d{1,2}:\d{2}\s+[AP]M)\s+-\s+([^:]+):\s+(.*)$\<close>.
  Each result is the three groups of one way to match the whole pattern; the first
  group is the text up to the end of \<open>[AP]M\<close>.  \<open>re.match\<close> returns the first way.
\<close>

definition header_matches :: "string \<Rightarrow> (string \<times> string \<times> string) list" where
  "header_matches line =
     [(take (length line - length r13) line, user, body).
        (g1, r1) \<leftarrow> greedy is_digit 1 2 line,
        (g2, r2) \<leftarrow> lit ''/'' r1,
        (g3, r3) \<leftarrow> greedy is_digit 1 2 r2,
        (g4, r4) \<leftarrow> lit ''/'' r3,
        (g5, r5) \<leftarrow> greedy is_digit 2 4 r4,
        (g6, r6) \<leftarrow> lit '','' r5,
        (g7, r7) \<leftarrow> many is_space 1 r6,
        (g8, r8) \<leftarrow> greedy is_digit 1 2 r7,
        (g9, r9) \<leftarrow> lit '':'' r8,
        (g10, r10) \<leftarrow> greedy is_digit 2 2 r9,
        (g11, r11) \<leftarrow> many is_space 1 r10,
        (g12, r12) \<leftarrow> one (\<lambda>c. c = CHR ''A'' \<or> c = CHR ''P'') r11,
        (g13, r13) \<leftarrow> lit ''M'' r12,
        (g14, r14) \<leftarrow> many is_space 1 r13,
        (g15, r15) \<leftarrow> lit ''-'' r14,
        (g16, r16) \<leftarrow> many is_space 1 r15,
        (user, r17) \<leftarrow> many (\<lambda>c. c \<noteq> CHR '':'') 1 r16,
        (g18, r18) \<leftarrow> lit '':'' r17,
        (g19, r19) \<leftarrow> many is_space 1 r18,
        (body, r20) \<leftarrow> many (\<lambda>c. c \<noteq> CHR 0x0A) 0 r19,
        at_end r20]"

definition re_match_header :: "string \<Rightarrow> (string \<times> string \<times> string) option" where
  "re_match_header line = (case header_matches line of [] \<Rightarrow> None | g # _ \<Rightarrow> Some g)"

text \<open>Two elements in sequence, and alternatives in the order they are tried.\<close>

definition chain ::
  "(string \<Rightarrow> (string \<times> string) list) \<Rightarrow> (string \<Rightarrow> (string \<times> string) list)
     \<Rightarrow> string \<Rightarrow> (string \<times> string) list" where
  "chain a b s = [(x @ y, r2). (x, r1) \<leftarrow> a s, (y, r2) \<leftarrow> b r1]"

definition alt :: "(string \<Rightarrow> (string \<times> string) list) list \<Rightarrow> string \<Rightarrow> (string \<times> string) list" where
  "alt ps s = concat (map (\<lambda>p. p s) ps)"

text \<open>
  \<open>datetime.strptime(s, '%m/%d/%y, %I:%M %p')\<close>.  The standard library turns the
  format into the pattern
  \<open>(1[0-2]|0[1-9]|[1-9])/(3[0-1]|[1-2]\d|0[1-9]|[1-9]| [1-9])/(\d\d),\s+(1[0-2]|0[1-9]|[1-9]):([0-5]\d|\d)\s+(am|pm)\<close>,
  matched ignoring case (English names of the day halves).  It raises \<open>ValueError\<close>,
  here \<open>None\<close>, when the pattern does not match at the start, when the first match
  leaves text unconverted, and when the day is out of range for the month.  A two-digit
  year up to 68 is in 2000-2068, a larger one in 1969-1999; 12 AM is hour 0 and 12 PM is
  hour 12.
\<close>

definition month_re :: "string \<Rightarrow> (string \<times> string) list" where
  "month_re =
     alt [chain (lit ''1'') (one (in_range CHR ''0'' CHR ''2'')),
          chain (lit ''0'') (one (in_range CHR ''1'' CHR ''9'')),
          one (in_range CHR ''1'' CHR ''9'')]"

definition day_re :: "string \<Rightarrow> (string \<times> string) list" where
  "day_re =
     alt [chain (lit ''3'') (one (in_range CHR ''0'' CHR ''1'')),
          chain (one (in_range CHR ''1'' CHR ''2'')) (one is_digit),
          chain (lit ''0'') (one (in_range CHR ''1'' CHR ''9'')),
          one (in_range CHR ''1'' CHR ''9''),
          chain (lit '' '') (one (in_range CHR ''1'' CHR ''9''))]"

definition year_re :: "string \<Rightarrow> (string \<times> string) list" where
  "year_re = chain (one is_digit) (one is_digit)"

definition hour_re :: "string \<Rightarrow> (string \<times> string) list" where
  "hour_re =
     alt [chain (lit ''1'') (one (in_range CHR ''0'' CHR ''2'')),
          chain (lit ''0'') (one (in_range CHR ''1'' CHR ''9'')),
          one (in_range CHR ''1'' CHR ''9'')]"

definition minute_re :: "string \<Rightarrow> (string \<times> string) list" where
  "minute_re = alt [chain (one (in_range CHR ''0'' CHR ''5'')) (one is_digit), one is_digit]"

definition ampm_re :: "string \<Rightarrow> (string \<times> string) list" where
  "ampm_re =
     alt [chain (one (\<lambda>c. c = CHR ''a'' \<or> c = CHR ''A'')) (one (\<lambda>c. c = CHR ''m'' \<or> c = CHR ''M'')),
          chain (one (\<lambda>c. c = CHR ''p'' \<or> c = CHR ''P'')) (one (\<lambda>c. c = CHR ''m'' \<or> c = CHR ''M''))]"

definition format_matches ::
  "string \<Rightarrow> (string \<times> string \<times> string \<times> string \<times> string \<times> string \<times> string) list" where
  "format_matches data_string =
     [(m, d, y, i, mi, p, r12).
        (m, r1) \<leftarrow> month_re data_string,
        (g2, r2) \<leftarrow> lit ''/'' r1,
        (d, r3) \<leftarrow> day_re r2,
        (g4, r4) \<leftarrow> lit ''/'' r3,
        (y, r5) \<leftarrow> year_re r4,
        (g6, r6) \<leftarrow> lit '','' r5,
        (g7, r7) \<leftarrow> many is_space 1 r6,
        (i, r8) \<leftarrow> hour_re r7,
        (g9, r9) \<leftarrow> lit '':'' r8,
        (mi, r10) \<leftarrow> minute_re r9,
        (g11, r11) \<leftarrow> many is_space 1 r10,
        (p, r12) \<leftarrow> ampm_re r11]"

text \<open>\<open>int(s)\<close> on a group of the pattern: its decimal digits, a leading space ignored.\<close>

definition digits_value :: "string \<Rightarrow> int" where
  "digits_value s = foldl (\<lambda>acc c. 10 * acc + (int (of_char c) - 48)) 0 (filter is_digit s)"

definition strptime :: "string \<Rightarrow> datetime option" where
  "strptime data_string =
     (case format_matches data_string of
        [] \<Rightarrow> None
      | (m, d, y, i, mi, p, rest) # _ \<Rightarrow>
          if rest \<noteq> [] then None
          else
            (let yy = digits_value y;
                 the_year = (if yy \<le> 68 then yy + 2000 else yy + 1900);
                 the_month = digits_value m;
                 the_day = digits_value d;
                 h = digits_value i;
                 the_hour = (if hd p = CHR ''a'' \<or> hd p = CHR ''A''
                             then (if h = 12 then 0 else h)
                             else (if h \<noteq> 12 then h + 12 else h))
             in if the_day > days_in_month the_year the_month then None
                else Some \<lparr>year = the_year, month = the_month, day = the_day,
                           hour = the_hour, minute = digits_value mi\<rparr>))"

text \<open>
  \<open>parse_whatsapp_line\<close>: no match returns \<open>None\<close>; a \<open>ValueError\<close> of \<open>strptime\<close> is
  caught and returns \<open>None\<close>; otherwise the speaker and the text are stripped.
\<close>

definition parse_whatsapp_line :: "string \<Rightarrow> chat_message option" where
  "parse_whatsapp_line line =
     (case re_match_header line of
        None \<Rightarrow> None
      | Some (timestamp_str, user, body) \<Rightarrow>
          (case strptime timestamp_str of
             None \<Rightarrow> None
           | Some ts \<Rightarrow> Some \<lparr>timestamp = ts, username = strip user, message = strip body\<rparr>))"

section \<open>A JSON reader\<close>

text \<open>
  A reader for JSON texts that keeps the members of an object as the list of their
  key-value pairs in the order of the text, repeated keys included (what
  \<open>json.loads\<close> hands to an \<open>object_pairs_hook\<close>).  A number is kept as its text.
\<close>

datatype json =
    JNull
  | JBool bool
  | JNumber string
  | JString string
  | JArray "json list"
  | JObject "(string \<times> json) list"

text \<open>Whitespace between tokens: space, tab, line feed, carriage return.\<close>

definition json_ws :: "char \<Rightarrow> bool" where
  "json_ws c = (c = CHR '' '' \<or> c = CHR 0x09 \<or> c = CHR 0x0A \<or> c = CHR 0x0D)"

definition skip_ws :: "string \<Rightarrow> string" where
  "skip_ws s = dropWhile json_ws s"

text \<open>
  String literals.  \<open>scan_string\<close> reads from after the opening quote to the closing
  quote: an escape is a backslash and one of \<open>" \ / b f n r t\<close>, or \<open>u\<close> and four
  hexadecimal digits (a code unit of 256 or more has no \<open>char\<close> and is refused); a
  control character below 0x20 is not allowed unescaped.
\<close>

definition hex_value :: "char \<Rightarrow> nat option" where
  "hex_value c =
     (if in_range CHR ''0'' CHR ''9'' c then Some (of_char c - 48)
      else if in_range CHR ''a'' CHR ''f'' c then Some (of_char c - 87)
      else if in_range CHR ''A'' CHR ''F'' c then Some (of_char c - 55)
      else None)"

definition unescape :: "char \<Rightarrow> char option" where
  "unescape e =
     (if e = CHR 0x22 then Some (CHR 0x22)
      else if e = CHR 0x5C then Some (CHR 0x5C)
      else if e = CHR ''/'' then Some (CHR ''/'')
      else if e = CHR ''b'' then Some (CHR 0x08)
      else if e = CHR ''f'' then Some (CHR 0x0C)
      else if e = CHR ''n'' then Some (CHR 0x0A)
      else if e = CHR ''r'' then Some (CHR 0x0D)
      else if e = CHR ''t'' then Some (CHR 0x09)
      else None)"

definition code_unit :: "char \<Rightarrow> char \<Rightarrow> char \<Rightarrow> char \<Rightarrow> nat option" where
  "code_unit h1 h2 h3 h4 =
     (case (hex_value h1, hex_value h2, hex_value h3, hex_value h4) of
        (Some a, Some b, Some c, Some d) \<Rightarrow> Some (((a * 16 + b) * 16 + c) * 16 + d)
      | _ \<Rightarrow> None)"

definition push :: "char \<Rightarrow> (string \<times> string) option \<Rightarrow> (string \<times> string) option" where
  "push c res = (case res of None \<Rightarrow> None | Some (s, r) \<Rightarrow> Some (c # s, r))"

fun scan_string :: "string \<Rightarrow> (string \<times> string) option" where
  "scan_string [] = None"
| "scan_string [c] = (if c = CHR 0x22 then Some ([], []) else None)"
| "scan_string (c # e # r) =
     (if c = CHR 0x22 then Some ([], e # r)
      else if c = CHR 0x5C then
        (if e = CHR ''u'' then
           (case r of
              h1 # h2 # h3 # h4 # r' \<Rightarrow>
                (case code_unit h1 h2 h3 h4 of
                   Some n \<Rightarrow> if n < 256 then push (char_of n) (scan_string r') else None
                 | None \<Rightarrow> None)
            | _ \<Rightarrow> None)
         else (case unescape e of
                 Some x \<Rightarrow> push x (scan_string r)
               | None \<Rightarrow> None))
      else if (of_char c :: nat) < 0x20 then None
      else push c (scan_string (e # r)))"


text \<open>Numbers: \<open>-?(0|[1-9]\d*)(\.\d+)?([eE][-+]?\d+)?\<close>.\<close>

definition opt :: "(string \<Rightarrow> (string \<times> string) list) \<Rightarrow> string \<Rightarrow> (string \<times> string) list" where
  "opt p s = p s @ [([], s)]"

definition number_re :: "string \<Rightarrow> (string \<times> string) list" where
  "number_re =
     chain (opt (lit ''-''))
       (chain (alt [lit ''0'', chain (one (in_range CHR ''1'' CHR ''9'')) (many is_digit 0)])
          (chain (opt (chain (lit ''.'') (many is_digit 1)))
             (opt (chain (one (\<lambda>c. c = CHR ''e'' \<or> c = CHR ''E''))
                     (chain (opt (one (\<lambda>c. c = CHR ''+'' \<or> c = CHR ''-''))) (many is_digit 1))))))"

text \<open>
  Values, arrays and objects.  The first argument bounds the number of nested calls;
  \<open>json_loads\<close> passes the length of the text, and the round trip below shows that this
  is enough for every document the serializer writes.
\<close>

fun scan_once :: "nat \<Rightarrow> string \<Rightarrow> (json \<times> string) option"
  and scan_array :: "nat \<Rightarrow> json list \<Rightarrow> string \<Rightarrow> (json \<times> string) option"
  and scan_object :: "nat \<Rightarrow> (string \<times> json) list \<Rightarrow> string \<Rightarrow> (json \<times> string) option"
where
  "scan_once 0 s = None"
| "scan_once (Suc n) s =
     (case s of
        [] \<Rightarrow> None
      | c # r \<Rightarrow>
          if c = CHR 0x22 then
            (case scan_string r of None \<Rightarrow> None | Some (x, r') \<Rightarrow> Some (JString x, r'))
          else if c = CHR ''{'' then
            (case skip_ws r of
               [] \<Rightarrow> None
             | d # r' \<Rightarrow> if d = CHR ''}'' then Some (JObject [], r') else scan_object n [] (d # r'))
          else if c = CHR ''['' then
            (case skip_ws r of
               [] \<Rightarrow> None
             | d # r' \<Rightarrow> if d = CHR '']'' then Some (JArray [], r') else scan_array n [] (d # r'))
          else if starts_with ''null'' s then Some (JNull, drop 4 s)
          else if starts_with ''true'' s then Some (JBool True, drop 4 s)
          else if starts_with ''false'' s then Some (JBool False, drop 5 s)
          else (case number_re s of [] \<Rightarrow> None | (x, r') # _ \<Rightarrow> Some (JNumber x, r')))"
| "scan_array 0 acc s = None"
| "scan_array (Suc n) acc s =
     (case scan_once n s of
        None \<Rightarrow> None
      | Some (v, r) \<Rightarrow>
          (case skip_ws r of
             [] \<Rightarrow> None
           | d # r' \<Rightarrow>
               if d = CHR '']'' then Some (JArray (acc @ [v]), r')
               else if d = CHR '','' then scan_array n (acc @ [v]) (skip_ws r')
               else None))"
| "scan_object 0 acc s = None"
| "scan_object (Suc n) acc s =
     (case s of
        [] \<Rightarrow> None
      | q # r \<Rightarrow>
          if q \<noteq> CHR 0x22 then None
          else
            (case scan_string r of
               None \<Rightarrow> None
             | Some (k, r1) \<Rightarrow>
                 (case skip_ws r1 of
                    [] \<Rightarrow> None
                  | c # r2 \<Rightarrow>
                      if c \<noteq> CHR '':'' then None
                      else
                        (case scan_once n (skip_ws r2) of
                           None \<Rightarrow> None
                         | Some (v, r3) \<Rightarrow>
                             (case skip_ws r3 of
                                [] \<Rightarrow> None
                              | d # r4 \<Rightarrow>
                                  if d = CHR ''}'' then Some (JObject (acc @ [(k, v)]), r4)
                                  else if d = CHR '','' then scan_object n (acc @ [(k, v)]) (skip_ws r4)
                                  else None)))))"

text \<open>The whole text is one value between optional whitespace.\<close>

definition json_loads :: "string \<Rightarrow> json option" where
  "json_loads s =
     (case scan_once (length s) (skip_ws s) of
        None \<Rightarrow> None
      | Some (v, r) \<Rightarrow> if skip_ws r = [] then Some v else None)"

text \<open>
  The object a conversation is read back as, and the pairs of an object whose values are
  strings.
\<close>

definition conversation_json :: "conversation \<Rightarrow> json" where
  "conversation_json conv = JObject (map (\<lambda>kv. (fst kv, JString (snd kv))) conv)"

fun member_pair :: "string \<times> json \<Rightarrow> string \<times> string" where
  "member_pair (k, JString v) = (k, v)"
| "member_pair (k, _) = (k, [])"

fun object_pairs :: "json \<Rightarrow> conversation" where
  "object_pairs (JObject ms) = map member_pair ms"
| "object_pairs _ = []"

text \<open>
  The text of the serializer's document in pieces: every line after the first is a
  newline and the line.  \<open>role_keys\<close> says that every key of a conversation is one of the
  two role tokens.
\<close>

definition lines_text :: "string list \<Rightarrow> string" where
  "lines_text ls = concat (map (\<lambda>l. CHR 0x0A # l) ls)"

definition members_text :: "nat \<Rightarrow> nat \<Rightarrow> conversation \<Rightarrow> string" where
  "members_text n k ps = lines_text (map (\<lambda>(j, kv). member_line n j kv) (enumerate k ps))"

definition conversation_text :: "nat \<Rightarrow> nat \<Rightarrow> conversation \<Rightarrow> string" where
  "conversation_text n_convs i conv =
     ''{'' @ members_text (length conv) 0 conv @ CHR 0x0A # ''    }''
       @ (if int i < int n_convs - 1 then '','' else [])"

definition conversations_text :: "nat \<Rightarrow> nat \<Rightarrow> conversation list \<Rightarrow> string" where
  "conversations_text n_convs k cs =
     concat (map (\<lambda>(i, conv). lines_text (conversation_lines n_convs i conv)) (enumerate k cs))"

definition role_keys :: "conversation \<Rightarrow> bool" where
  "role_keys conv = (\<forall>kv \<in> set conv. fst kv = USER_ROLE \<or> fst kv = CHAR_ROLE)"

section \<open>Sample inputs\<close>

definition sample_time :: "int \<Rightarrow> int \<Rightarrow> datetime" where
  "sample_time h m = \<lparr>year = 2024, month = 3, day = 1, hour = h, minute = m\<rparr>"

definition sample_messages :: "chat_message list" where
  "sample_messages =
     [\<lparr>timestamp = sample_time 9 0, username = ''Alice'', message = ''hi''\<rparr>,
      \<lparr>timestamp = sample_time 9 1, username = ''Bob'', message = ''hey''\<rparr>,
      \<lparr>timestamp = sample_time 9 20, username = ''Alice'', message = ''bye''\<rparr>]"



section \<open>Properties of the capacity selector\<close>

lemma serialize_empty_length:
  "length (serialize_to_json_with_duplicate_keys []) = 35"
  by (simp add: serialize_to_json_with_duplicate_keys_def enumerate_eq_zip)

lemma append_while_fits_within:
  "result = [] \<or> int (length (serialize_to_json_with_duplicate_keys result)) \<le> L \<Longrightarrow>
   append_while_fits L result cs = [] \<or>
   int (length (serialize_to_json_with_duplicate_keys (append_while_fits L result cs))) \<le> L"
  by (induction cs arbitrary: result) (auto simp: Let_def)

lemma append_while_fits_all:
  "\<forall>k. 1 \<le> k \<and> k \<le> length cs \<longrightarrow>
       int (length (serialize_to_json_with_duplicate_keys (result @ take k cs))) \<le> L \<Longrightarrow>
   append_while_fits L result cs = result @ cs"
proof (induction cs arbitrary: result)
  case Nil
  then show ?case by simp
next
  case (Cons c cs)
  from Cons.prems [rule_format, of 1]
  have fits: "int (length (serialize_to_json_with_duplicate_keys (result @ [c]))) \<le> L"
    by simp
  have "\<forall>k. 1 \<le> k \<and> k \<le> length cs \<longrightarrow>
          int (length (serialize_to_json_with_duplicate_keys ((result @ [c]) @ take k cs))) \<le> L"
  proof (intro allI impI)
    fix k assume "1 \<le> k \<and> k \<le> length cs"
    with Cons.prems [rule_format, of "Suc k"]
    show "int (length (serialize_to_json_with_duplicate_keys ((result @ [c]) @ take k cs))) \<le> L"
      by simp
  qed
  from Cons.IH [OF this] fits show ?case
    by (simp add: Let_def)
qed

text \<open>
  Claim C1, as amended: the empty document has 35 characters; for every budget the
  selection is empty or its document is within the budget; and for every budget of at
  least 35 characters the document of the selection is within the budget, whatever the
  shuffle returns.
\<close>

theorem fit_within_budget:
  "length (serialize_to_json_with_duplicate_keys []) = 35 \<and>
   (fst (fit_to_character_limit shuffle conversations character_limit g) = [] \<or>
      int (length (serialize_to_json_with_duplicate_keys
             (fst (fit_to_character_limit shuffle conversations character_limit g))))
        \<le> character_limit) \<and>
   (35 \<le> character_limit \<longrightarrow>
      int (length (serialize_to_json_with_duplicate_keys
             (fst (fit_to_character_limit shuffle conversations character_limit g))))
        \<le> character_limit)"
proof -
  have within: "append_while_fits character_limit [] cs = [] \<or>
      int (length (serialize_to_json_with_duplicate_keys
             (append_while_fits character_limit [] cs))) \<le> character_limit" for cs
    by (rule append_while_fits_within) simp
  have pass: "35 \<le> character_limit \<Longrightarrow>
      int (length (serialize_to_json_with_duplicate_keys
             (append_while_fits character_limit [] cs))) \<le> character_limit" for cs
    using within [of cs] serialize_empty_length by auto
  show ?thesis
    using pass within
    by (auto simp: fit_to_character_limit_def Let_def serialize_empty_length split: prod.splits)
qed

text \<open>The budget 120 admits one of the two sample conversations; the second pass runs.\<close>

theorem fit_within_budget_witness:
  "int (length (serialize_to_json_with_duplicate_keys
      (fst (fit_to_character_limit reversing_shuffle [sample_conversation, sample_conversation] 120 0)))) \<le> 120
   \<and> fst (fit_to_character_limit reversing_shuffle [sample_conversation, sample_conversation] 120 0) = [sample_conversation]"
  using fit_within_budget [of reversing_shuffle "[sample_conversation, sample_conversation]" 120 0]
  by (simp add: fit_to_character_limit_def Let_def reversing_shuffle_def serialize_to_json_with_duplicate_keys_def sample_conversation_def conversation_lines_def member_line_def json_dumps_def escape_char_def enumerate_eq_zip)

text \<open>
  Claim C1 as stated fails below 35 characters: with the budget 10 the selection is
  empty and its document has 35 characters.
\<close>

theorem fit_small_budget_counterexample:
  "\<not> int (length (serialize_to_json_with_duplicate_keys
      (fst (fit_to_character_limit reversing_shuffle [] 10 0)))) \<le> 10"
  by (simp add: fit_to_character_limit_def serialize_empty_length)

text \<open>
  Claim C7: when every tentative selection of the first pass fits (each non-empty prefix
  of the input serializes within the budget), the result is the input in its order and
  the generator state is the one passed in: nothing was shuffled.
\<close>

theorem phase_one_complete:
  "\<forall>k\<in>{1..length conversations}.
      int (length (serialize_to_json_with_duplicate_keys (take k conversations))) \<le> character_limit \<Longrightarrow>
   fit_to_character_limit shuffle conversations character_limit g = (conversations, g)"
proof -
  assume "\<forall>k\<in>{1..length conversations}.
      int (length (serialize_to_json_with_duplicate_keys (take k conversations))) \<le> character_limit"
  then have "append_while_fits character_limit [] conversations = [] @ conversations"
    by (intro append_while_fits_all) simp
  then show ?thesis
    by (simp add: fit_to_character_limit_def)
qed

theorem phase_one_complete_witness:
  "fit_to_character_limit reversing_shuffle [sample_conversation] 104 0 = ([sample_conversation], 0)"
proof -
  have "\<forall>k\<in>{1..length [sample_conversation]}.
      int (length (serialize_to_json_with_duplicate_keys (take k [sample_conversation]))) \<le> 104"
    by (simp add: serialize_to_json_with_duplicate_keys_def sample_conversation_def
          conversation_lines_def member_line_def json_dumps_def escape_char_def enumerate_eq_zip)
  from phase_one_complete [OF this] show ?thesis .
qed

section \<open>Properties of the role mapper\<close>

lemma convert_block_eq:
  "fold (role_step u c) block (conv, sp) =
     (conv @ map (\<lambda>m. (if username m = u then USER_ROLE else CHAR_ROLE, message m))
               (filter (\<lambda>m. username m = u \<or> username m = c) block),
      sp \<union> (\<lambda>m. if username m = u then USER_ROLE else CHAR_ROLE) `
              {m \<in> set block. username m = u \<or> username m = c})"
  by (induction block arbitrary: conv sp) (auto simp: role_step_def)

lemma roles_distinct: "USER_ROLE \<noteq> CHAR_ROLE"
  by (simp add: USER_ROLE_def CHAR_ROLE_def)

lemma convert_fold:
  "fold (\<lambda>block result.
             case convert_block u c block of
               (conversation, speakers_present) \<Rightarrow>
                 if card speakers_present \<ge> 2 \<and> conversation \<noteq> []
                 then result @ [conversation] else result) blocks acc
   = acc @ map (\<lambda>b. fst (convert_block u c b))
             (filter (\<lambda>b. card (snd (convert_block u c b)) \<ge> 2 \<and> fst (convert_block u c b) \<noteq> []) blocks)"
  by (induction blocks arbitrary: acc) (simp_all add: case_prod_beta)

lemma card_two_roles:
  assumes "card S \<ge> 2" "S \<subseteq> {USER_ROLE, CHAR_ROLE}"
  shows "S = {USER_ROLE, CHAR_ROLE}"
proof -
  have "finite {USER_ROLE, CHAR_ROLE}" by simp
  moreover have "card {USER_ROLE, CHAR_ROLE} = 2" using roles_distinct by simp
  ultimately show ?thesis using assms
    by (metis card_seteq)
qed

text \<open>
  Claim C5: every conversation the role mapper emits is non-empty, has a pair of each
  role and only pairs of the two roles, and is the image of the messages of one input
  block whose speaker is \<open>user_name\<close> or \<open>char_name\<close>: no pair comes from another speaker.
\<close>

theorem role_mapper_conversations:
  "\<forall>conv \<in> set (convert_to_json_format blocks user_name char_name).
     conv \<noteq> []
     \<and> (\<exists>p \<in> set conv. fst p = USER_ROLE)
     \<and> (\<exists>p \<in> set conv. fst p = CHAR_ROLE)
     \<and> (\<forall>p \<in> set conv. fst p = USER_ROLE \<or> fst p = CHAR_ROLE)
     \<and> (\<exists>block \<in> set blocks.
           conv = map (\<lambda>m. (if username m = user_name then USER_ROLE else CHAR_ROLE, message m))
                      (filter (\<lambda>m. username m = user_name \<or> username m = char_name) block))"
proof
  fix conv
  assume "conv \<in> set (convert_to_json_format blocks user_name char_name)"
  then obtain b where b: "b \<in> set blocks" "conv = fst (convert_block user_name char_name b)"
      "card (snd (convert_block user_name char_name b)) \<ge> 2" "conv \<noteq> []"
    by (auto simp: convert_to_json_format_def convert_fold)
  let ?role = "\<lambda>m. if username m = user_name then USER_ROLE else CHAR_ROLE"
  let ?known = "\<lambda>m. username m = user_name \<or> username m = char_name"
  have conv: "conv = map (\<lambda>m. (?role m, message m)) (filter ?known b)"
    using b(2) by (simp add: convert_block_def convert_block_eq)
  have sp: "snd (convert_block user_name char_name b) = ?role ` {m \<in> set b. ?known m}"
    by (simp add: convert_block_def convert_block_eq)
  have "?role ` {m \<in> set b. ?known m} \<subseteq> {USER_ROLE, CHAR_ROLE}" by auto
  with b(3) sp have both: "?role ` {m \<in> set b. ?known m} = {USER_ROLE, CHAR_ROLE}"
    using card_two_roles by metis
  have fsts: "fst ` set conv = ?role ` {m \<in> set b. ?known m}"
    unfolding conv by (auto simp: image_iff)
  have u: "\<exists>p \<in> set conv. fst p = USER_ROLE" using fsts both by (metis (no_types, lifting) image_iff insertI1)
  have c: "\<exists>p \<in> set conv. fst p = CHAR_ROLE" using fsts both by (metis (no_types, lifting) image_iff insertI1 insert_commute)
  have r: "\<forall>p \<in> set conv. fst p = USER_ROLE \<or> fst p = CHAR_ROLE"
    unfolding conv by auto
  show "conv \<noteq> []
     \<and> (\<exists>p \<in> set conv. fst p = USER_ROLE)
     \<and> (\<exists>p \<in> set conv. fst p = CHAR_ROLE)
     \<and> (\<forall>p \<in> set conv. fst p = USER_ROLE \<or> fst p = CHAR_ROLE)
     \<and> (\<exists>block \<in> set blocks.
           conv = map (\<lambda>m. (?role m, message m)) (filter ?known block))"
    using b(1,4) u c r conv by blast
qed

theorem role_mapper_witness:
  "convert_to_json_format [take 2 sample_messages] ''Alice'' ''Bob'' = [sample_conversation]
   \<and> sample_conversation \<noteq> []
   \<and> (USER_ROLE, ''hi'') \<in> set sample_conversation
   \<and> (CHAR_ROLE, ''hey'') \<in> set sample_conversation"
  using role_mapper_conversations [of "[take 2 sample_messages]" "''Alice''" "''Bob''"]
  by (simp add: sample_messages_def sample_conversation_def convert_to_json_format_def
        convert_block_def role_step_def USER_ROLE_def CHAR_ROLE_def)

text \<open>
  Claim C10: with the same name for both roles every message of that speaker gets the
  user role, so no block has both roles and the result is empty.
\<close>

theorem same_name_no_conversations:
  "convert_to_json_format blocks name name = []"
proof -
  have sp: "snd (convert_block name name b) \<subseteq> {USER_ROLE}" for b
    by (auto simp: convert_block_def convert_block_eq)
  have "card (snd (convert_block name name b)) \<le> 1" for b
    using card_mono [OF _ sp [of b]] by simp
  then have no: "\<not> card (snd (convert_block name name b)) \<ge> 2" for b
    by (simp add: not_le less_Suc_eq_le numeral_2_eq_2)
  have "set (convert_to_json_format blocks name name) = {}"
    using no by (auto simp: convert_to_json_format_def convert_fold)
  then show ?thesis by simp
qed

section \<open>Properties of the sanitizer and the segmenter\<close>

lemmas eval_simps = group_by_time_gap_def loop_step_def sanitize_def sanitize_from_link_def
  handle_media_def handle_link_def place_def strip_def is_space_def replace_newlines_def
  media_marker_def starts_with_def link_at_def time_diff_def total_minutes_def toordinal_def
  days_before_year_def days_before_month_def days_in_month_def is_leap_def sample_time_def

lemma gaps_within_single: "gaps_within s [m]"
  by (simp add: gaps_within_def)

lemma gaps_within_snoc:
  assumes "gaps_within s b" "b \<noteq> []" "time_diff (last b) m \<le> s"
  shows "gaps_within s (b @ [m])"
  unfolding gaps_within_def
proof (intro allI impI)
  fix i assume i: "Suc i < length (b @ [m])"
  show "time_diff ((b @ [m]) ! i) ((b @ [m]) ! Suc i) \<le> s"
  proof (cases "Suc i < length b")
    case True
    then show ?thesis using assms(1) by (simp add: gaps_within_def nth_append)
  next
    case False
    with i have e: "length b = Suc i" by simp
    have "(b @ [m]) ! i = last b" "(b @ [m]) ! Suc i = m"
      using assms(2) by (simp_all add: nth_append last_conv_nth e)
    then show ?thesis using assms(3) by simp
  qed
qed

lemma boundaries_snoc_block:
  assumes "boundaries_exceed s (bs @ [cur])" "time_diff (last cur) m > s"
  shows "boundaries_exceed s ((bs @ [cur]) @ [[m]])"
  unfolding boundaries_exceed_def
proof (intro allI impI)
  fix j assume j: "Suc j < length ((bs @ [cur]) @ [[m]])"
  show "s < time_diff (last (((bs @ [cur]) @ [[m]]) ! j)) (hd (((bs @ [cur]) @ [[m]]) ! Suc j))"
  proof (cases "Suc j < length (bs @ [cur])")
    case True
    then have "((bs @ [cur]) @ [[m]]) ! j = (bs @ [cur]) ! j"
        "((bs @ [cur]) @ [[m]]) ! Suc j = (bs @ [cur]) ! Suc j"
      by (simp_all only: nth_append) simp_all
    then show ?thesis using assms(1) True by (simp only: boundaries_exceed_def)
  next
    case False
    with j have e: "j = length bs" by simp
    have "((bs @ [cur]) @ [[m]]) ! j = cur" "((bs @ [cur]) @ [[m]]) ! Suc j = [m]"
      unfolding e by (simp_all add: nth_append)
    then show ?thesis using assms(2) by simp
  qed
qed

lemma boundaries_extend_last:
  assumes "boundaries_exceed s (bs @ [cur])" "cur \<noteq> []"
  shows "boundaries_exceed s (bs @ [cur @ [m]])"
  unfolding boundaries_exceed_def
proof (intro allI impI)
  fix j assume j: "Suc j < length (bs @ [cur @ [m]])"
  then have jl: "Suc j \<le> length bs" by simp
  have a: "(bs @ [cur @ [m]]) ! j = (bs @ [cur]) ! j" using jl by (simp add: nth_append)
  have b: "hd ((bs @ [cur @ [m]]) ! Suc j) = hd ((bs @ [cur]) ! Suc j)"
    using jl assms(2) by (auto simp: nth_append)
  from assms(1) j have "s < time_diff (last ((bs @ [cur]) ! j)) (hd ((bs @ [cur]) ! Suc j))"
    by (simp add: boundaries_exceed_def)
  then show "s < time_diff (last ((bs @ [cur @ [m]]) ! j)) (hd ((bs @ [cur @ [m]]) ! Suc j))"
    by (simp only: a b)
qed

lemma seg_inv_place: "seg_inv s state \<Longrightarrow> seg_inv s (place s m state)"
proof (cases state)
  case (Pair blocks cur)
  assume inv: "seg_inv s state"
  show ?thesis
  proof (cases "cur = []")
    case True
    with inv Pair have "blocks = []" by (simp add: seg_inv_def)
    with True Pair show ?thesis
      by (simp add: place_def seg_inv_def closed_blocks_def segmented_def gaps_within_single boundaries_exceed_def)
  next
    case False
    from inv Pair False have seg: "segmented s (blocks @ [cur])"
      by (simp add: seg_inv_def closed_blocks_def)
    show ?thesis
    proof (cases "time_diff (last cur) m > s")
      case True
      have "segmented s ((blocks @ [cur]) @ [[m]])"
        using seg boundaries_snoc_block [OF _ True, of blocks]
        by (auto simp: segmented_def gaps_within_single)
      with True False Pair show ?thesis
        by (simp add: place_def seg_inv_def closed_blocks_def)
    next
      case notgt: False
      have "segmented s (blocks @ [cur @ [m]])"
        using seg boundaries_extend_last [of s blocks cur m] gaps_within_snoc [of s cur m] False notgt
        by (auto simp: segmented_def)
      with notgt False Pair show ?thesis
        by (simp add: place_def seg_inv_def closed_blocks_def)
    qed
  qed
qed

lemma seg_inv_fold:
  "seg_inv s state \<Longrightarrow> seg_inv s (fold (loop_step s fm fl mr lr) msgs state)"
  by (induction msgs arbitrary: state) (auto simp: loop_step_def seg_inv_place split: option.splits)

lemma group_by_time_gap_segmented:
  "segmented s (group_by_time_gap msgs s fm fl mr lr)"
proof (cases "msgs = []")
  case True
  then show ?thesis by (simp add: group_by_time_gap_def segmented_def boundaries_exceed_def)
next
  case False
  have "seg_inv s ([], [])"
    by (simp add: seg_inv_def closed_blocks_def segmented_def boundaries_exceed_def)
  from seg_inv_fold [OF this, of fm fl mr lr msgs]
  have "segmented s (closed_blocks (fold (loop_step s fm fl mr lr) msgs ([], [])))"
    by (simp add: seg_inv_def)
  with False show ?thesis
    by (simp add: group_by_time_gap_def closed_blocks_def)
qed

text \<open>
  Claim C3: in the output every block is non-empty, two consecutive messages of one block
  are at most \<open>split_minutes\<close> apart, and the last message of a block and the first
  message of the next block are more than \<open>split_minutes\<close> apart.
\<close>

theorem segmenter_gaps:
  "(\<forall>block \<in> set (group_by_time_gap messages split_minutes filter_media filter_links
                      media_replacement link_replacement).
      block \<noteq> [] \<and>
      (\<forall>i. Suc i < length block \<longrightarrow> time_diff (block ! i) (block ! Suc i) \<le> split_minutes))
   \<and> (\<forall>j. Suc j < length (group_by_time_gap messages split_minutes filter_media filter_links
                          media_replacement link_replacement) \<longrightarrow>
         time_diff
           (last (group_by_time_gap messages split_minutes filter_media filter_links
                    media_replacement link_replacement ! j))
           (hd (group_by_time_gap messages split_minutes filter_media filter_links
                    media_replacement link_replacement ! Suc j))
         > split_minutes)"
  using group_by_time_gap_segmented [of split_minutes messages filter_media filter_links
      media_replacement link_replacement]
  by (simp add: segmented_def gaps_within_def boundaries_exceed_def)

theorem segmenter_gaps_witness:
  "group_by_time_gap sample_messages 15 True True None None
     = [[sample_messages ! 0, sample_messages ! 1], [sample_messages ! 2]]
   \<and> time_diff (sample_messages ! 0) (sample_messages ! 1) \<le> 15
   \<and> time_diff (sample_messages ! 1) (sample_messages ! 2) > 15"
  using segmenter_gaps [of sample_messages 15 True True None None]
  by (simp add: sample_messages_def eval_simps)








text \<open>
  Claim C9: with the filter off, the empty string as a replacement leaves the body as it
  is in the media branch and in the link branch, and the whole function returns what it
  returns for an absent replacement.
\<close>

theorem empty_replacement_is_absent:
  "handle_media False (Some []) body = Some body
   \<and> handle_link False (Some []) body = Some body
   \<and> handle_media filter_media (Some []) body = handle_media filter_media None body
   \<and> handle_link filter_links (Some []) body = handle_link filter_links None body
   \<and> group_by_time_gap messages split_minutes filter_media filter_links (Some []) link_replacement
       = group_by_time_gap messages split_minutes filter_media filter_links None link_replacement
   \<and> group_by_time_gap messages split_minutes filter_media filter_links media_replacement (Some [])
       = group_by_time_gap messages split_minutes filter_media filter_links media_replacement None"
proof -
  have m: "handle_media fm (Some []) b = handle_media fm None b" for fm b
    by (simp add: handle_media_def)
  have l: "handle_link fl (Some []) b = handle_link fl None b" for fl b
    by (simp add: handle_link_def)
  have s1: "sanitize fm fl (Some []) lr = sanitize fm fl None lr" for fm fl lr
    by (rule ext) (simp add: sanitize_def m)
  have sl: "sanitize_from_link fl (Some []) = sanitize_from_link fl None" for fl
    by (intro ext) (simp add: sanitize_from_link_def l)
  have s2: "sanitize fm fl mr (Some []) = sanitize fm fl mr None" for fm fl mr
    by (rule ext) (simp add: sanitize_def sl split: option.splits)
  have l1: "loop_step s fm fl (Some []) lr = loop_step s fm fl None lr" for s fm fl lr
    by (intro ext) (simp add: loop_step_def s1)
  have l2: "loop_step s fm fl mr (Some []) = loop_step s fm fl mr None" for s fm fl mr
    by (intro ext) (simp add: loop_step_def s2)
  show ?thesis
    by (simp add: group_by_time_gap_def l1 l2 m l) (simp add: handle_media_def handle_link_def)
qed


section \<open>Properties of the line parser\<close>

lemmas parse_simps = parse_whatsapp_line_def strptime_def format_matches_def re_match_header_def header_matches_def greedy_def many_def lit_def one_def at_end_def is_digit_def in_range_def is_space_def starts_with_def
  chain_def alt_def month_re_def day_re_def year_re_def hour_re_def minute_re_def ampm_re_def digits_value_def days_in_month_def is_leap_def strip_def

lemma strip_empty_iff: "strip s = [] \<longleftrightarrow> (\<forall>c \<in> set s. is_space c)"
proof -
  have inner: "dropWhile is_space (rev (dropWhile is_space s)) = [] \<longleftrightarrow> dropWhile is_space s = []"
  proof
    assume a: "dropWhile is_space (rev (dropWhile is_space s)) = []"
    show "dropWhile is_space s = []"
    proof (rule ccontr)
      assume n: "dropWhile is_space s \<noteq> []"
      then have "\<not> is_space (hd (dropWhile is_space s))" by (rule hd_dropWhile)
      moreover have "hd (dropWhile is_space s) \<in> set (rev (dropWhile is_space s))"
        using n by simp
      ultimately show False using a by (simp only: dropWhile_eq_Nil_conv) blast
    qed
  next
    assume e: "dropWhile is_space s = []"
    show "dropWhile is_space (rev (dropWhile is_space s)) = []" unfolding e by simp
  qed
  have "strip s = [] \<longleftrightarrow> dropWhile is_space (rev (dropWhile is_space s)) = []"
    by (simp only: strip_def rev_is_Nil_conv)
  also have "\<dots> \<longleftrightarrow> dropWhile is_space s = []" by (rule inner)
  also have "\<dots> \<longleftrightarrow> (\<forall>c \<in> set s. is_space c)" by (rule dropWhile_eq_Nil_conv)
  finally show ?thesis .
qed

text \<open>
  Claim C4, as amended: the body of a parsed message is the third group of the header
  pattern with the surrounding whitespace stripped; it is empty exactly when that group
  is empty or all whitespace.
\<close>

theorem parsed_body:
  "parse_whatsapp_line line = Some m \<Longrightarrow>
     \<exists>timestamp_str user body.
       re_match_header line = Some (timestamp_str, user, body)
       \<and> message m = strip body
       \<and> (message m = [] \<longleftrightarrow> (\<forall>c \<in> set body. is_space c))"
  by (auto simp: parse_whatsapp_line_def strip_empty_iff split: option.splits)

theorem parsed_body_witness:
  "parse_whatsapp_line ''3/1/24, 9:00 AM - Alice: hi''
     = Some \<lparr>timestamp = sample_time 9 0, username = ''Alice'', message = ''hi''\<rparr>
   \<and> re_match_header ''3/1/24, 9:00 AM - Alice: hi'' = Some (''3/1/24, 9:00 AM'', ''Alice'', ''hi'')
   \<and> strip ''hi'' = ''hi''
   \<and> \<not> is_space CHR ''h''"
proof -
  have p: "parse_whatsapp_line ''3/1/24, 9:00 AM - Alice: hi''
     = Some \<lparr>timestamp = sample_time 9 0, username = ''Alice'', message = ''hi''\<rparr>"
    by (simp add: parse_simps sample_time_def)
  have r: "re_match_header ''3/1/24, 9:00 AM - Alice: hi'' = Some (''3/1/24, 9:00 AM'', ''Alice'', ''hi'')"
    by (simp add: parse_simps)
  from parsed_body [OF p] r have "''hi'' = strip ''hi'' \<and> (''hi'' = [] \<longleftrightarrow> (\<forall>c \<in> set ''hi''. is_space c))"
    by simp
  then have "strip ''hi'' = ''hi''" by simp
  with p r show ?thesis by (simp add: is_space_def)
qed

text \<open>
  Claim C4 as stated fails on a header with only a space after the colon: the line is
  parsed and the body of the message is empty.
\<close>

theorem blank_body_counterexample:
  "parse_whatsapp_line ''3/1/24, 9:00 AM - Alice: ''
     = Some \<lparr>timestamp = sample_time 9 0, username = ''Alice'', message = []\<rparr>"
  by (simp add: parse_simps sample_time_def)

text \<open>
  Claim C2 at a header with a four-digit year: the pattern of the line parser matches it,
  \<open>strptime\<close> rejects the timestamp text (\<open>%y\<close> takes two digits and a comma must
  follow), and the parser returns \<open>None\<close>; the same line with the year \<open>24\<close> is parsed.
\<close>

theorem four_digit_year_rejected:
  "re_match_header ''3/1/2024, 9:00 AM - Alice: hi'' = Some (''3/1/2024, 9:00 AM'', ''Alice'', ''hi'')
   \<and> strptime ''3/1/2024, 9:00 AM'' = None
   \<and> parse_whatsapp_line ''3/1/2024, 9:00 AM - Alice: hi'' = None
   \<and> parse_whatsapp_line ''3/1/24, 9:00 AM - Alice: hi''
       = Some \<lparr>timestamp = sample_time 9 0, username = ''Alice'', message = ''hi''\<rparr>"
  by (simp add: parse_simps sample_time_def)


section \<open>The serializer's round trip\<close>

lemma hex_value_hex_digit: "k < 16 \<Longrightarrow> hex_value (hex_digit k) = Some k"
proof -
  assume "k < 16"
  then have "k \<in> {0, 1, 2, 3, 4, 5, 6, 7, 8, 9, 10, 11, 12, 13, 14, 15}" by simp arith
  then show ?thesis
    by (auto simp: hex_value_def hex_digit_def in_range_def)
qed

lemma hex_value_zero: "hex_value CHR ''0'' = Some 0"
  by (simp add: hex_value_def in_range_def)

lemma code_unit_escape:
  assumes "(of_char c :: nat) < 0x20"
  shows "code_unit CHR ''0'' CHR ''0'' (hex_digit (of_char c div 16)) (hex_digit (of_char c mod 16))
           = Some (of_char c)"
proof -
  have "(of_char c :: nat) div 16 < 16" using assms by simp
  moreover have "(of_char c :: nat) mod 16 < 16" by simp
  ultimately show ?thesis
    by (simp add: code_unit_def hex_value_hex_digit hex_value_zero)
qed

lemma scan_string_Cons:
  "scan_string (c # s) =
     (if c = CHR 0x22 then Some ([], s)
      else if c = CHR 0x5C then
        (case s of
           [] \<Rightarrow> None
         | e # r \<Rightarrow>
             if e = CHR ''u'' then
               (case r of
                  h1 # h2 # h3 # h4 # r' \<Rightarrow>
                    (case code_unit h1 h2 h3 h4 of
                       Some n \<Rightarrow> if n < 256 then push (char_of n) (scan_string r') else None
                     | None \<Rightarrow> None)
                | _ \<Rightarrow> None)
             else (case unescape e of
                     Some x \<Rightarrow> push x (scan_string r)
                   | None \<Rightarrow> None))
      else if (of_char c :: nat) < 0x20 then None
      else (case s of [] \<Rightarrow> None | _ \<Rightarrow> push c (scan_string s)))"
  by (cases s) simp_all

lemma scan_escaped_char:
  "scan_string s = Some (v, rest) \<Longrightarrow> scan_string (escape_char c @ s) = Some (c # v, rest)"
proof -
  assume s: "scan_string s = Some (v, rest)"
  then have ne: "s \<noteq> []" by auto
  then obtain x xs where sx: "s = x # xs" by (cases s) auto
  show ?thesis
  proof (cases "(of_char c :: nat) < 0x20 \<and> c \<noteq> CHR 0x08 \<and> c \<noteq> CHR 0x0C \<and> c \<noteq> CHR 0x0A \<and> c \<noteq> CHR 0x0D \<and> c \<noteq> CHR 0x09")
    case True
    then have c: "c \<noteq> CHR 0x5C" "c \<noteq> CHR 0x22" by auto
    have "(of_char c :: nat) < 256" using True by simp
    with True c s show ?thesis
      by (simp add: escape_char_def scan_string_Cons code_unit_escape push_def)
  next
    case False
    with s sx show ?thesis
      by (auto simp: escape_char_def scan_string_Cons unescape_def push_def)
  qed
qed

lemma scan_string_escaped:
  "scan_string (concat (map escape_char v) @ CHR 0x22 # rest) = Some (v, rest)"
  by (induction v) (simp_all add: scan_string_Cons scan_escaped_char)

lemma scan_string_json_dumps:
  "scan_once (Suc n) (json_dumps v @ rest) = Some (JString v, rest)"
  by (simp add: json_dumps_def scan_string_escaped)

lemma join_Cons: "join sep (x # ys) = x @ concat (map (\<lambda>y. sep @ y) ys)"
  by (induction ys arbitrary: x) simp_all

lemma lines_text_simps:
  "lines_text [] = []"
  "lines_text (l # ls) = CHR 0x0A # l @ lines_text ls"
  "lines_text (xs @ ys) = lines_text xs @ lines_text ys"
  by (simp_all add: lines_text_def)

lemma lines_text_concat: "lines_text (concat xss) = concat (map lines_text xss)"
  by (induction xss) (simp_all add: lines_text_simps)

lemma serialize_text:
  \<open>serialize_to_json_with_duplicate_keys conversations =
     ''{'' @ CHR 0x0A # ''  "example_conversation": [''
       @ conversations_text (length conversations) 0 conversations
       @ CHR 0x0A # ''  ]'' @ CHR 0x0A # ''}''\<close>
proof -
  have "concat (map (\<lambda>y. [CHR 0x0A] @ y) ls) = lines_text ls" for ls
    by (simp add: lines_text_def)
  then show ?thesis
    by (simp add: serialize_to_json_with_duplicate_keys_def join_Cons conversations_text_def
          lines_text_simps lines_text_concat comp_def split_def)
qed

lemma conversation_lines_text:
  "lines_text (conversation_lines n_convs i conv) = CHR 0x0A # ''    '' @ conversation_text n_convs i conv"
  by (simp add: conversation_lines_def conversation_text_def members_text_def lines_text_simps)

lemma members_text_Cons:
  "members_text n k (p # ps) = CHR 0x0A # member_line n k p @ members_text n (Suc k) ps"
  by (simp add: members_text_def lines_text_simps)

lemma conversations_text_Cons:
  "conversations_text n k (c # cs) =
     CHR 0x0A # ''    '' @ conversation_text n k c @ conversations_text n (Suc k) cs"
  by (simp add: conversations_text_def conversation_lines_text)

lemma scan_role_key:
  "key = USER_ROLE \<or> key = CHAR_ROLE \<Longrightarrow> scan_string (key @ CHR 0x22 # rest) = Some (key, rest)"
  by (auto simp: USER_ROLE_def CHAR_ROLE_def scan_string_Cons push_def)

lemma skip_ws_simps:
  "skip_ws [] = []"
  "json_ws c \<Longrightarrow> skip_ws (c # s) = skip_ws s"
  "\<not> json_ws c \<Longrightarrow> skip_ws (c # s) = c # s"
  by (simp_all add: skip_ws_def)

lemma skip_ws_json_dumps: "skip_ws (json_dumps v @ rest) = json_dumps v @ rest"
  by (simp add: json_dumps_def skip_ws_simps json_ws_def)

lemma scan_object_step:
  assumes "scan_string r = Some (k, CHR '':'' # r2)"
    and "scan_once n (skip_ws r2) = Some (v, r3)"
    and "skip_ws r3 = d # r4"
  shows "scan_object (Suc n) acc (CHR 0x22 # r) =
           (if d = CHR ''}'' then Some (JObject (acc @ [(k, v)]), r4)
            else if d = CHR '','' then scan_object n (acc @ [(k, v)]) (skip_ws r4)
            else None)"
  using assms by (simp add: skip_ws_simps json_ws_def)

lemma scan_array_step:
  assumes "scan_once n s = Some (v, r)" and "skip_ws r = d # r'"
  shows "scan_array (Suc n) acc s =
           (if d = CHR '']'' then Some (JArray (acc @ [v]), r')
            else if d = CHR '','' then scan_array n (acc @ [v]) (skip_ws r')
            else None)"
  using assms by simp

lemma member_line_text:
  "member_line n k p =
     ''      '' @ CHR 0x22 # fst p @ CHR 0x22 # CHR '':'' # CHR '' '' # json_dumps (snd p)
       @ (if int k < int n - 1 then '','' else [])"
  by (simp add: member_line_def)

lemma scan_members:
  "ps \<noteq> [] \<Longrightarrow> k + length ps = n \<Longrightarrow> length ps < fuel \<Longrightarrow> role_keys ps \<Longrightarrow>
   scan_object fuel acc (skip_ws (members_text n k ps @ CHR 0x0A # ''    }'' @ rest))
     = Some (JObject (acc @ map (\<lambda>kv. (fst kv, JString (snd kv))) ps), rest)"
proof (induction ps arbitrary: k acc fuel)
  case Nil
  then show ?case by simp
next
  case (Cons p ps)
  from Cons.prems(3) obtain f where fuel: "fuel = Suc (Suc f)"
    by (cases fuel; cases "fuel - 1") auto
  have key: "fst p = USER_ROLE \<or> fst p = CHAR_ROLE"
    using Cons.prems(4) by (simp add: role_keys_def)
  define tail where "tail = (if int k < int n - 1 then '','' else [])
       @ members_text n (Suc k) ps @ CHR 0x0A # ''    }'' @ rest"
  have shape: "skip_ws (members_text n k (p # ps) @ CHR 0x0A # ''    }'' @ rest)
      = CHR 0x22 # (fst p @ CHR 0x22 # CHR '':'' # CHR '' '' # json_dumps (snd p) @ tail)"
    by (simp add: members_text_Cons member_line_text skip_ws_simps json_ws_def tail_def)
  have s1: "scan_string (fst p @ CHR 0x22 # CHR '':'' # CHR '' '' # json_dumps (snd p) @ tail)
      = Some (fst p, CHR '':'' # CHR '' '' # json_dumps (snd p) @ tail)"
    by (rule scan_role_key [OF key])
  have s2: "scan_once (Suc f) (skip_ws (CHR '' '' # json_dumps (snd p) @ tail))
      = Some (JString (snd p), tail)"
    by (simp only: skip_ws_simps(2) json_ws_def skip_ws_json_dumps scan_string_json_dumps simp_thms)
  show ?case
  proof (cases "ps = []")
    case True
    with Cons.prems(2) have "\<not> int k < int n - 1" by auto
    then have s3: "skip_ws tail = CHR ''}'' # rest"
      using True by (simp add: tail_def members_text_def lines_text_simps skip_ws_simps json_ws_def)
    show ?thesis
      unfolding shape fuel scan_object_step [OF s1 s2 s3]
      using True by simp
  next
    case False
    with Cons.prems(2) have "int k < int n - 1" by (cases ps) auto
    then have s3: "skip_ws tail = CHR '','' # members_text n (Suc k) ps @ CHR 0x0A # ''    }'' @ rest"
      by (simp add: tail_def skip_ws_simps json_ws_def)
    have ih: "scan_object (Suc f) (acc @ [(fst p, JString (snd p))])
                (skip_ws (members_text n (Suc k) ps @ CHR 0x0A # ''    }'' @ rest))
              = Some (JObject ((acc @ [(fst p, JString (snd p))]) @ map (\<lambda>kv. (fst kv, JString (snd kv))) ps), rest)"
      using Cons.prems False by (intro Cons.IH) (auto simp: fuel role_keys_def)
    show ?thesis
      unfolding shape fuel scan_object_step [OF s1 s2 s3]
      using ih by simp
  qed
qed

lemma scan_object_Nil: "scan_object fuel acc [] = None"
  by (cases fuel) simp_all

lemma scan_object_open:
  assumes "scan_object n [] (skip_ws t) = Some res"
  shows "scan_once (Suc n) (CHR ''{'' # t) = Some res"
proof (cases "skip_ws t")
  case Nil
  with assms show ?thesis by (simp add: scan_object_Nil)
next
  case (Cons d r)
  have "d \<noteq> CHR ''}''"
  proof
    assume "d = CHR ''}''"
    with assms Cons show False by (cases n) simp_all
  qed
  with assms Cons show ?thesis by simp
qed

lemma scan_conversation:
  assumes "length conv + 2 \<le> fuel" and "role_keys conv"
  shows "scan_once fuel (conversation_text n_convs i conv @ rest)
           = Some (conversation_json conv, (if int i < int n_convs - 1 then '','' else []) @ rest)"
proof -
  from assms(1) obtain f where fuel: "fuel = Suc f" and f: "length conv < f"
    by (cases fuel) auto
  define tail where "tail = (if int i < int n_convs - 1 then '','' else []) @ rest"
  have shape: "conversation_text n_convs i conv @ rest
      = CHR ''{'' # (members_text (length conv) 0 conv @ CHR 0x0A # ''    }'' @ tail)"
    by (simp add: conversation_text_def tail_def)
  show ?thesis
  proof (cases "conv = []")
    case True
    then show ?thesis
      unfolding shape fuel tail_def [symmetric]
      by (simp add: members_text_def lines_text_simps skip_ws_simps json_ws_def conversation_json_def)
  next
    case False
    have "scan_object f [] (skip_ws (members_text (length conv) 0 conv @ CHR 0x0A # ''    }'' @ tail))
        = Some (JObject ([] @ map (\<lambda>kv. (fst kv, JString (snd kv))) conv), tail)"
      using False f assms(2) by (intro scan_members) simp_all
    then have "scan_once (Suc f) (CHR ''{'' # (members_text (length conv) 0 conv @ CHR 0x0A # ''    }'' @ tail))
        = Some (conversation_json conv, tail)"
      by (intro scan_object_open) (simp add: conversation_json_def)
    then show ?thesis
      unfolding shape fuel tail_def .
  qed
qed

lemma scan_conversations:
  "cs \<noteq> [] \<Longrightarrow> k + length cs = n \<Longrightarrow> \<forall>c \<in> set cs. length c \<le> m \<and> role_keys c \<Longrightarrow>
   length cs + m + 2 \<le> fuel \<Longrightarrow>
   scan_array fuel acc (skip_ws (conversations_text n k cs @ CHR 0x0A # ''  ]'' @ rest))
     = Some (JArray (acc @ map conversation_json cs), rest)"
proof (induction cs arbitrary: k acc fuel)
  case Nil
  then show ?case by simp
next
  case (Cons c cs)
  from Cons.prems(4) obtain f where fuel: "fuel = Suc f" and f: "length cs + m + 2 \<le> f"
    by (cases fuel) auto
  define tail where "tail = conversations_text n (Suc k) cs @ CHR 0x0A # ''  ]'' @ rest"
  have shape: "skip_ws (conversations_text n k (c # cs) @ CHR 0x0A # ''  ]'' @ rest)
      = conversation_text n k c @ tail"
    by (simp add: conversations_text_Cons skip_ws_simps json_ws_def tail_def conversation_text_def)
  have "length c + 2 \<le> f" "role_keys c"
    using Cons.prems(3) f by auto
  then have s1: "scan_once f (conversation_text n k c @ tail)
      = Some (conversation_json c, (if int k < int n - 1 then '','' else []) @ tail)"
    by (rule scan_conversation)
  show ?case
  proof (cases "cs = []")
    case True
    with Cons.prems(2) have "\<not> int k < int n - 1" by auto
    then have s2: "skip_ws ((if int k < int n - 1 then '','' else []) @ tail) = CHR '']'' # rest"
      using True by (simp add: tail_def conversations_text_def skip_ws_simps json_ws_def)
    show ?thesis
      unfolding shape fuel scan_array_step [OF s1 s2]
      using True by simp
  next
    case False
    with Cons.prems(2) have "int k < int n - 1" by (cases cs) auto
    then have s2: "skip_ws ((if int k < int n - 1 then '','' else []) @ tail) = CHR '','' # tail"
      by (simp add: skip_ws_simps json_ws_def)
    have ih: "scan_array f (acc @ [conversation_json c])
                (skip_ws (conversations_text n (Suc k) cs @ CHR 0x0A # ''  ]'' @ rest))
              = Some (JArray ((acc @ [conversation_json c]) @ map conversation_json cs), rest)"
      using Cons.prems False f by (intro Cons.IH) auto
    show ?thesis
      unfolding shape fuel scan_array_step [OF s1 s2]
      using ih by (simp add: tail_def)
  qed
qed

lemma scan_array_open:
  assumes "scan_array n [] (skip_ws t) = Some res" and "skip_ws t = CHR ''{'' # r"
  shows "scan_once (Suc n) (CHR ''['' # t) = Some res"
  using assms by simp

lemma length_lines_text: "length ls \<le> length (lines_text ls)"
  by (induction ls) (simp_all add: lines_text_simps)

lemma length_conversations_text:
  "sum_list (map length cs) + 2 * length cs \<le> length (conversations_text n k cs)"
proof (induction cs arbitrary: k)
  case Nil
  then show ?case by simp
next
  case (Cons c cs)
  have "length c + 2 \<le> length (lines_text (conversation_lines n k c))"
    using length_lines_text [of "conversation_lines n k c"]
    by (simp add: conversation_lines_def)
  with Cons [of "Suc k"] show ?case
    by (simp add: conversations_text_def)
qed

lemma scan_conversation_array:
  assumes "\<forall>c \<in> set cs. role_keys c"
    and "length cs + sum_list (map length cs) + 2 \<le> fuel"
  shows "scan_once (Suc fuel)
           (CHR ''['' # conversations_text (length cs) 0 cs @ CHR 0x0A # ''  ]'' @ rest)
         = Some (JArray (map conversation_json cs), rest)"
proof (cases "cs = []")
  case True
  then show ?thesis
    by (simp add: conversations_text_def skip_ws_simps json_ws_def)
next
  case False
  have bound: "\<forall>c \<in> set cs. length c \<le> sum_list (map length cs) \<and> role_keys c"
    using assms(1) by (auto intro: member_le_sum_list)
  have scan: "scan_array fuel [] (skip_ws (conversations_text (length cs) 0 cs @ CHR 0x0A # ''  ]'' @ rest))
      = Some (JArray ([] @ map conversation_json cs), rest)"
    using False bound assms(2) by (intro scan_conversations) simp_all
  from False obtain c cs' where cs: "cs = c # cs'" by (cases cs) auto
  have "skip_ws (conversations_text (length cs) 0 cs @ CHR 0x0A # ''  ]'' @ rest)
      = CHR ''{'' # (members_text (length c) 0 c @ CHR 0x0A # ''    }''
          @ (if int 0 < int (length cs) - 1 then '','' else [])
          @ conversations_text (length cs) (Suc 0) cs' @ CHR 0x0A # ''  ]'' @ rest)"
    unfolding cs
    by (simp add: conversations_text_Cons skip_ws_simps json_ws_def conversation_text_def)
  with scan show ?thesis
    by (intro scan_array_open [where r = "members_text (length c) 0 c @ CHR 0x0A # ''    }''
          @ (if int 0 < int (length cs) - 1 then '','' else [])
          @ conversations_text (length cs) (Suc 0) cs' @ CHR 0x0A # ''  ]'' @ rest"]) simp_all
qed

text \<open>
  Claim C8: for conversations whose keys are the two role tokens, reading the
  serializer's text gives an object with the single key \<open>example_conversation\<close> whose
  value is an array with one object per conversation, each holding the pairs of its
  conversation in order with repeated keys kept; reading the pairs of these objects
  gives the conversations back.
\<close>

theorem serializer_round_trip:
  assumes "\<forall>conv \<in> set conversations. \<forall>kv \<in> set conv. fst kv = USER_ROLE \<or> fst kv = CHAR_ROLE"
  shows "json_loads (serialize_to_json_with_duplicate_keys conversations)
           = Some (JObject [(''example_conversation'', JArray (map conversation_json conversations))])
         \<and> map object_pairs (map conversation_json conversations) = conversations"
proof
  let ?X = "conversations_text (length conversations) 0 conversations"
  let ?arr = "JArray (map conversation_json conversations)"
  define doc where "doc = serialize_to_json_with_duplicate_keys conversations"
  have keys: "\<forall>c \<in> set conversations. role_keys c"
    using assms by (simp add: role_keys_def)
  have len: "length doc = 35 + length ?X"
    by (simp add: doc_def serialize_text)
  define e where "e = length doc - 3"
  have fuel: "length doc = Suc (Suc (Suc e))"
    using len by (simp add: e_def)
  have enough: "length conversations + sum_list (map length conversations) + 2 \<le> e"
    using length_conversations_text [of conversations "length conversations" 0] len
    by (simp add: e_def)
  have arr: "scan_once (Suc e) (skip_ws (CHR '' '' # CHR ''['' # ?X @ CHR 0x0A # ''  ]'' @ [CHR 0x0A, CHR ''}'']))
      = Some (?arr, [CHR 0x0A, CHR ''}''])"
    using scan_conversation_array [OF keys enough, of "[CHR 0x0A, CHR ''}'']"]
    by (simp add: skip_ws_simps json_ws_def)
  have key: "scan_string (''example_conversation'' @ CHR 0x22 # CHR '':'' # CHR '' '' # CHR ''['' # ?X
                @ CHR 0x0A # ''  ]'' @ [CHR 0x0A, CHR ''}''])
      = Some (''example_conversation'', CHR '':'' # CHR '' '' # CHR ''['' # ?X
                @ CHR 0x0A # ''  ]'' @ [CHR 0x0A, CHR ''}''])"
    by (simp add: scan_string_Cons push_def)
  have close: "skip_ws [CHR 0x0A, CHR ''}''] = CHR ''}'' # []"
    by (simp add: skip_ws_simps json_ws_def)
  have members: "scan_object (Suc (Suc e)) []
        (CHR 0x22 # (''example_conversation'' @ CHR 0x22 # CHR '':'' # CHR '' '' # CHR ''['' # ?X
                @ CHR 0x0A # ''  ]'' @ [CHR 0x0A, CHR ''}'']))
      = Some (JObject [(''example_conversation'', ?arr)], [])"
    unfolding scan_object_step [OF key arr close] by simp
  have shape: "doc = CHR ''{'' # CHR 0x0A # CHR '' '' # CHR '' '' # CHR 0x22 #
        (''example_conversation'' @ CHR 0x22 # CHR '':'' # CHR '' '' # CHR ''['' # ?X
                @ CHR 0x0A # ''  ]'' @ [CHR 0x0A, CHR ''}''])"
    by (simp add: doc_def serialize_text)
  have open_ws: "skip_ws (CHR 0x0A # CHR '' '' # CHR '' '' # CHR 0x22 # t) = CHR 0x22 # t" for t
    by (simp add: skip_ws_simps json_ws_def)
  have whole: "scan_once (Suc (Suc (Suc e))) doc = Some (JObject [(''example_conversation'', ?arr)], [])"
    apply (subst shape)
    apply (rule scan_object_open)
    apply (subst open_ws)
    apply (rule members)
    done
  have "skip_ws doc = doc"
    by (subst (1 2) shape) (simp add: skip_ws_simps json_ws_def)
  with whole have "scan_once (length doc) (skip_ws doc) = Some (JObject [(''example_conversation'', ?arr)], [])"
    by (simp only: fuel)
  then show "json_loads (serialize_to_json_with_duplicate_keys conversations)
           = Some (JObject [(''example_conversation'', ?arr)])"
    by (simp add: json_loads_def doc_def skip_ws_simps)
next
  have "object_pairs (conversation_json conv) = conv" for conv
    by (induction conv) (simp_all add: conversation_json_def)
  then show "map object_pairs (map conversation_json conversations) = conversations"
    by (simp add: comp_def)
qed

theorem serializer_round_trip_witness:
  "json_loads (serialize_to_json_with_duplicate_keys [sample_conversation, sample_conversation])
     = Some (JObject [(''example_conversation'',
          JArray [JObject [(''{{random_user_1}}'', JString ''hi''), (''{{char}}'', JString ''hey'')],
                  JObject [(''{{random_user_1}}'', JString ''hi''), (''{{char}}'', JString ''hey'')]])])"
  using serializer_round_trip [of "[sample_conversation, sample_conversation]"]
  by (simp add: sample_conversation_def USER_ROLE_def CHAR_ROLE_def conversation_json_def)

end
